theory Spec2Isabelle
  imports Main "HOL-Library.Word" "HOL-Library.Sublist"
begin

section \<open>JavaScript strings and values\<close>

text \<open>
  A JavaScript string is a sequence of UTF-16 code units. \<open>includes\<close>, \<open>replace\<close> and
  \<open>trim\<close> all work on code units, so a string is modelled as a list of 16-bit words.
  \<open>js\<close> embeds an ASCII literal of the source.
\<close>

type_synonym jschar = "16 word"
type_synonym jsstring = "jschar list"

definition js :: "string \<Rightarrow> jsstring" where
  "js s = map (\<lambda>c. of_nat (of_char c)) s"

text \<open>
  \<open>String.prototype.includes(n)\<close>: \<open>n\<close> occurs in \<open>s\<close> as a contiguous run.
  The scan tries every start position from the left.
\<close>

fun includes_str :: "'a list \<Rightarrow> 'a list \<Rightarrow> bool" where
  "includes_str [] n = (n = [])"
| "includes_str (x # xs) n = (prefix n (x # xs) \<or> includes_str xs n)"

text \<open>
  \<open>String.prototype.replace(n, r)\<close> with a string pattern \<open>n\<close>: only the first (leftmost)
  occurrence is replaced. The source only ever passes the replacement \<open>''\<close>, so the
  \<open>$\<close>-patterns of a replacement string play no role.
\<close>

fun replace_str :: "'a list \<Rightarrow> 'a list \<Rightarrow> 'a list \<Rightarrow> 'a list" where
  "replace_str [] n r = (if n = [] then r else [])"
| "replace_str (x # xs) n r =
     (if prefix n (x # xs) then r @ drop (length n) (x # xs)
      else x # replace_str xs n r)"

text \<open>
  \<open>s.replace(/\n$/, '')\<close>: without the \<open>m\<close> flag \<open>$\<close> matches only at the end of the
  input, so the one match possible is a line feed that is the last code unit.
\<close>

definition replace_nl_end :: "jsstring \<Rightarrow> jsstring" where
  "replace_nl_end s = (if s \<noteq> [] \<and> last s = 0x0A then butlast s else s)"

text \<open>
  The code units that \<open>trim()\<close> removes and that \<open>\s\<close> matches: ECMAScript WhiteSpace
  (TAB, VT, FF, ZWNBSP and the space separators) and LineTerminator (LF, CR, LS, PS).
\<close>

definition is_ws :: "jschar \<Rightarrow> bool" where
  "is_ws c \<longleftrightarrow>
     c = 0x09 \<or> c = 0x0A \<or> c = 0x0B \<or> c = 0x0C \<or> c = 0x0D \<or> c = 0x20 \<or> c = 0xA0
     \<or> c = 0x1680 \<or> (0x2000 \<le> c \<and> c \<le> 0x200A) \<or> c = 0x2028 \<or> c = 0x2029
     \<or> c = 0x202F \<or> c = 0x205F \<or> c = 0x3000 \<or> c = 0xFEFF"

definition trim :: "jsstring \<Rightarrow> jsstring" where
  "trim s = rev (dropWhile is_ws (rev (dropWhile is_ws s)))"

text \<open>
  The values a loosely typed JavaScript variable can hold here. Numbers are the integers
  (token counts); an object is its properties in insertion order, keys being the ASCII
  identifiers of the source.
\<close>

datatype jsval =
    JUndefined
  | JNull
  | JBool bool
  | JNum int
  | JStr jsstring
  | JArr "jsval list"
  | JObj "(string \<times> jsval) list"

datatype error = TypeError

text \<open>Truthiness, as tested by \<open>if (v)\<close> and \<open>v || d\<close>.\<close>

fun truthy :: "jsval \<Rightarrow> bool" where
  "truthy JUndefined = False"
| "truthy JNull = False"
| "truthy (JBool b) = b"
| "truthy (JNum n) = (n \<noteq> 0)"
| "truthy (JStr s) = (s \<noteq> [])"
| "truthy (JArr xs) = True"
| "truthy (JObj kvs) = True"

definition js_or :: "jsval \<Rightarrow> jsval \<Rightarrow> jsval" where
  "js_or a b = (if truthy a then a else b)"

text \<open>
  Reading a property \<open>v.k\<close> of a value that is neither \<open>null\<close> nor \<open>undefined\<close>. The keys
  read in this program (\<open>prompt_tokens\<close>, \<open>completion_tokens\<close> and the fields of the
  events) are own properties of objects only: on a primitive or an array the read gives
  \<open>undefined\<close>.
\<close>

fun js_prop :: "jsval \<Rightarrow> string \<Rightarrow> jsval" where
  "js_prop (JObj kvs) k = (case map_of kvs k of None \<Rightarrow> JUndefined | Some v \<Rightarrow> v)"
| "js_prop v k = JUndefined"

text \<open>Reading a property of any value: on \<open>null\<close> and \<open>undefined\<close> it throws a TypeError.\<close>

fun js_get :: "jsval \<Rightarrow> string \<Rightarrow> error + jsval" where
  "js_get JUndefined k = Inl TypeError"
| "js_get JNull k = Inl TypeError"
| "js_get v k = Inr (js_prop v k)"

section \<open>The reasoning markers\<close>

definition think_open :: jsstring where
  "think_open = js ''<think>''"

definition think_close :: jsstring where
  "think_close = js ''</think>''"

section \<open>Non-streaming response: \<open>antigravityToClaudeResponse\<close>\<close>

text \<open>
  The first occurrence of \<open>n\<close> in \<open>s\<close>, as the text before it and the text after it.
\<close>

fun split_first :: "'a list \<Rightarrow> 'a list \<Rightarrow> ('a list \<times> 'a list) option" where
  "split_first [] n = (if n = [] then Some ([], []) else None)"
| "split_first (x # xs) n =
     (if prefix n (x # xs) then Some ([], drop (length n) (x # xs))
      else map_option (\<lambda>(b, a). (x # b, a)) (split_first xs n))"

text \<open>
  \<open>content.match(/<think>([\s\S]*?)<\/think>/)\<close>. The regular expression engine tries
  the start positions from the left; at a position where \<open><think>\<close> stands, the lazy
  \<open>[\s\S]*?\<close> extends to the first \<open></think>\<close> that follows, and where none follows the
  engine moves on to the next position. The result is the text before the match, the
  capture group and the text after the match.
\<close>

fun think_match :: "jsstring \<Rightarrow> (jsstring \<times> jsstring \<times> jsstring) option" where
  "think_match [] = None"
| "think_match (x # xs) =
     (if prefix think_open (x # xs) then
        (case split_first (drop (length think_open) (x # xs)) think_close of
           Some (inner, after) \<Rightarrow> Some ([], inner, after)
         | None \<Rightarrow> map_option (\<lambda>(b, i, a). (x # b, i, a)) (think_match xs))
      else map_option (\<lambda>(b, i, a). (x # b, i, a)) (think_match xs))"

text \<open>A content block \<open>{type: "text", text: t}\<close>.\<close>

definition text_block :: "jsstring \<Rightarrow> jsval" where
  "text_block t = JObj [(''type'', JStr (js ''text'')), (''text'', JStr t)]"

text \<open>
  The two strings the function extracts. With a match, \<open>thinkingContent\<close> is the trimmed
  capture group and \<open>mainContent\<close> is the content with the match and the white space
  after it (\<open>\s*\<close>, greedy) removed, trimmed. Without a match, \<open>thinkingContent\<close> is empty
  and \<open>mainContent\<close> is the content as it came.
\<close>

definition thinkingContent :: "jsstring \<Rightarrow> jsstring" where
  "thinkingContent content =
     (case think_match content of
        Some (before, inner, after) \<Rightarrow> trim inner
      | None \<Rightarrow> [])"

definition mainContent :: "jsstring \<Rightarrow> jsstring" where
  "mainContent content =
     (case think_match content of
        Some (before, inner, after) \<Rightarrow> trim (before @ dropWhile is_ws after)
      | None \<Rightarrow> content)"

definition contentBlocks :: "jsstring \<Rightarrow> jsval list" where
  "contentBlocks content =
     (let b1 = (if thinkingContent content \<noteq> [] then [text_block (thinkingContent content)] else []);
          b2 = b1 @ (if mainContent content \<noteq> [] then [text_block (mainContent content)] else [])
      in if length b2 = 0 then b2 @ [text_block []] else b2)"

text \<open>
  \<open>generateRequestId\<close> lives in another module; its result is the parameter \<open>rid\<close>.
  \<open>usage\<close> defaults to \<open>null\<close>; under the guard \<open>if (usage)\<close> it is neither \<open>null\<close> nor
  \<open>undefined\<close>, so its properties are read with \<open>js_prop\<close>.
\<close>

definition antigravityToClaudeResponse :: "jsstring \<Rightarrow> jsstring \<Rightarrow> jsstring \<Rightarrow> jsval \<Rightarrow> jsval" where
  "antigravityToClaudeResponse rid content model usage =
     JObj ([(''id'', JStr (js ''msg_'' @ rid)),
            (''type'', JStr (js ''message'')),
            (''role'', JStr (js ''assistant'')),
            (''content'', JArr (contentBlocks content)),
            (''model'', JStr model),
            (''stop_reason'', JStr (js ''end_turn'')),
            (''stop_sequence'', JNull)]
           @ (if truthy usage then
                [(''usage'', JObj [(''input_tokens'', js_or (js_prop usage ''prompt_tokens'') (JNum 0)),
                                   (''output_tokens'', js_or (js_prop usage ''completion_tokens'') (JNum 0))])]
              else []))"

section \<open>Streaming: \<open>ClaudeStreamHandler\<close>\<close>

text \<open>
  One server-sent event, \<open>event: <eventType>\ndata: <JSON of data>\n\n\<close>, kept as the
  pair that \<open>createClaudeStreamEvent\<close> formats. The response object \<open>res\<close> is the list of
  the calls made on it, oldest first.
\<close>

record sse =
  event :: string
  data :: jsval

datatype res_call = Write sse | End_call

definition createClaudeStreamEvent :: "string \<Rightarrow> jsval \<Rightarrow> sse" where
  "createClaudeStreamEvent eventType d = \<lparr>event = eventType, data = d\<rparr>"

definition writeClaudeStreamEvent :: "res_call list \<Rightarrow> string \<Rightarrow> jsval \<Rightarrow> res_call list" where
  "writeClaudeStreamEvent r eventType d = r @ [Write (createClaudeStreamEvent eventType d)]"

record handler =
  res :: "res_call list"
  messageId :: jsstring
  model :: jsstring
  contentIndex :: int
  hasStarted :: bool
  thinkingBuffer :: jsstring
  inThinking :: bool
  hasContent :: bool
  totalInputTokens :: jsval
  totalOutputTokens :: jsval

definition new_handler :: "res_call list \<Rightarrow> jsstring \<Rightarrow> jsstring \<Rightarrow> handler" where
  "new_handler r mid mdl =
     \<lparr>res = r, messageId = mid, model = mdl, contentIndex = 0, hasStarted = False,
      thinkingBuffer = [], inThinking = False, hasContent = False,
      totalInputTokens = JNum 0, totalOutputTokens = JNum 0\<rparr>"

definition message_start_data :: "jsstring \<Rightarrow> jsstring \<Rightarrow> jsval" where
  "message_start_data mid mdl =
     JObj [(''type'', JStr (js ''message_start'')),
           (''message'', JObj [(''id'', JStr mid),
                               (''type'', JStr (js ''message'')),
                               (''role'', JStr (js ''assistant'')),
                               (''content'', JArr []),
                               (''model'', JStr mdl),
                               (''stop_reason'', JNull),
                               (''stop_sequence'', JNull),
                               (''usage'', JObj [(''input_tokens'', JNum 0),
                                                 (''output_tokens'', JNum 0)])])]"

definition start :: "handler \<Rightarrow> handler" where
  "start h =
     h\<lparr>res := writeClaudeStreamEvent (res h) ''message_start''
                 (message_start_data (messageId h) (model h)),
       hasStarted := True\<rparr>"

definition content_block_start_data :: "int \<Rightarrow> jsval" where
  "content_block_start_data i =
     JObj [(''type'', JStr (js ''content_block_start'')),
           (''index'', JNum i),
           (''content_block'', JObj [(''type'', JStr (js ''text'')), (''text'', JStr [])])]"

definition content_block_delta_data :: "int \<Rightarrow> jsstring \<Rightarrow> jsval" where
  "content_block_delta_data i t =
     JObj [(''type'', JStr (js ''content_block_delta'')),
           (''index'', JNum i),
           (''delta'', JObj [(''type'', JStr (js ''text_delta'')), (''text'', JStr t)])]"

definition sendContentBlock :: "jsstring \<Rightarrow> handler \<Rightarrow> handler" where
  "sendContentBlock t h =
     (let h1 = (if \<not> hasContent h then
                  h\<lparr>res := writeClaudeStreamEvent (res h) ''content_block_start''
                              (content_block_start_data (contentIndex h)),
                    hasContent := True\<rparr>
                else h)
      in h1\<lparr>res := writeClaudeStreamEvent (res h1) ''content_block_delta''
                      (content_block_delta_data (contentIndex h1) t)\<rparr>)"

definition handleContent :: "jsstring \<Rightarrow> handler \<Rightarrow> handler" where
  "handleContent content h =
     (if includes_str content think_open then
        h\<lparr>inThinking := True,
          thinkingBuffer := replace_nl_end (replace_str content think_open [])\<rparr>
      else if inThinking h then
        (if includes_str content think_close then
           (let h1 = h\<lparr>thinkingBuffer :=
                          thinkingBuffer h @ replace_nl_end (replace_str content think_close []),
                        inThinking := False\<rparr>;
                h2 = (if trim (thinkingBuffer h1) \<noteq> []
                      then sendContentBlock (trim (thinkingBuffer h1)) h1 else h1)
            in h2\<lparr>thinkingBuffer := []\<rparr>)
         else h\<lparr>thinkingBuffer := thinkingBuffer h @ content\<rparr>)
      else if content \<noteq> [] then sendContentBlock content h
      else h)"

text \<open>
  \<open>handleUsage\<close> reads two properties of its argument; on \<open>null\<close> or \<open>undefined\<close> the first
  read throws before anything is assigned.
\<close>

definition handleUsage :: "jsval \<Rightarrow> handler \<Rightarrow> error + handler" where
  "handleUsage usage h =
     (case js_get usage ''prompt_tokens'' of
        Inl e \<Rightarrow> Inl e
      | Inr p \<Rightarrow>
          (let h1 = h\<lparr>totalInputTokens := js_or p (JNum 0)\<rparr>
           in case js_get usage ''completion_tokens'' of
                Inl e \<Rightarrow> Inl e
              | Inr c \<Rightarrow> Inr (h1\<lparr>totalOutputTokens := js_or c (JNum 0)\<rparr>)))"

definition content_block_stop_data :: "int \<Rightarrow> jsval" where
  "content_block_stop_data i =
     JObj [(''type'', JStr (js ''content_block_stop'')), (''index'', JNum i)]"

definition message_delta_data :: "jsval \<Rightarrow> jsval" where
  "message_delta_data out =
     JObj [(''type'', JStr (js ''message_delta'')),
           (''delta'', JObj [(''stop_reason'', JStr (js ''end_turn'')),
                             (''stop_sequence'', JNull)]),
           (''usage'', JObj [(''output_tokens'', out)])]"

definition message_stop_data :: jsval where
  "message_stop_data = JObj [(''type'', JStr (js ''message_stop''))]"

text \<open>The method \<open>end()\<close>.\<close>

definition end_stream :: "handler \<Rightarrow> handler" where
  "end_stream h =
     (let h1 = (if inThinking h \<and> trim (thinkingBuffer h) \<noteq> []
                then sendContentBlock (trim (thinkingBuffer h)) h else h);
          h2 = (if hasContent h1 then
                  h1\<lparr>res := writeClaudeStreamEvent (res h1) ''content_block_stop''
                                (content_block_stop_data (contentIndex h1))\<rparr>
                else h1);
          h3 = h2\<lparr>res := writeClaudeStreamEvent (res h2) ''message_delta''
                            (message_delta_data (totalOutputTokens h2))\<rparr>;
          h4 = h3\<lparr>res := writeClaudeStreamEvent (res h3) ''message_stop'' message_stop_data\<rparr>
      in h4\<lparr>res := res h4 @ [End_call]\<rparr>)"

text \<open>Feeding a list of fragments in order.\<close>

fun feed :: "jsstring list \<Rightarrow> handler \<Rightarrow> handler" where
  "feed [] h = h"
| "feed (c # cs) h = feed cs (handleContent c h)"

text \<open>
  Any sequence of method calls on one handler. A call that throws leaves the handler as
  it was and ends the sequence; the result is the handler then and the error, if any.
\<close>

datatype op = Start | HandleContent jsstring | HandleUsage jsval | End_op

fun apply_op :: "op \<Rightarrow> handler \<Rightarrow> error + handler" where
  "apply_op Start h = Inr (start h)"
| "apply_op (HandleContent c) h = Inr (handleContent c h)"
| "apply_op (HandleUsage u) h = handleUsage u h"
| "apply_op End_op h = Inr (end_stream h)"

fun run :: "op list \<Rightarrow> handler \<Rightarrow> handler \<times> error option" where
  "run [] h = (h, None)"
| "run (x # xs) h =
     (case apply_op x h of
        Inl e \<Rightarrow> (h, Some e)
      | Inr h' \<Rightarrow> run xs h')"

section \<open>Reading the event log\<close>

text \<open>The events written to the response, in order.\<close>

fun written :: "res_call list \<Rightarrow> sse list" where
  "written [] = []"
| "written (Write e # cs) = e # written cs"
| "written (End_call # cs) = written cs"

text \<open>The texts of the \<open>content_block_delta\<close> events written, in order.\<close>

fun delta_text :: "sse \<Rightarrow> jsstring list" where
  "delta_text e =
     (if event e = ''content_block_delta'' then
        (case js_prop (js_prop (data e) ''delta'') ''text'' of
           JStr t \<Rightarrow> [t]
         | _ \<Rightarrow> [])
      else [])"

definition deltas :: "res_call list \<Rightarrow> jsstring list" where
  "deltas r = concat (map delta_text (written r))"

definition event_names :: "res_call list \<Rightarrow> string list" where
  "event_names r = map event (written r)"

text \<open>The \<open>usage\<close> objects of the events of one type, in order.\<close>

definition usage_of :: "string \<Rightarrow> res_call list \<Rightarrow> jsval list" where
  "usage_of name r =
     map (\<lambda>e. js_prop (data e) ''usage'') (filter (\<lambda>e. event e = name) (written r))"


text \<open>
  The first step of \<open>end()\<close>: reasoning text still buffered in reasoning mode is sent.
\<close>

definition flush :: "handler \<Rightarrow> handler" where
  "flush h = (if inThinking h \<and> trim (thinkingBuffer h) \<noteq> []
              then sendContentBlock (trim (thinkingBuffer h)) h else h)"

text \<open>
  The shape of the event log between \<open>start()\<close> and \<open>end()\<close>: \<open>message_start\<close>, then,
  once content was sent, \<open>content_block_start\<close> and one \<open>content_block_delta\<close> per text
  sent; nothing but events has been written.
\<close>

definition lifecycle_inv :: "handler \<Rightarrow> bool" where
  "lifecycle_inv h \<longleftrightarrow>
     event_names (res h) =
       ''message_start'' #
         (if hasContent h
          then ''content_block_start'' # replicate (length (deltas (res h))) ''content_block_delta''
          else [])
     \<and> (hasContent h \<longleftrightarrow> deltas (res h) \<noteq> [])
     \<and> res h = map Write (written (res h))"

text \<open>The \<open>usage\<close> objects inside the messages of the \<open>message_start\<close> events, in order.\<close>

definition start_usage :: "res_call list \<Rightarrow> jsval list" where
  "start_usage r =
     map (\<lambda>e. js_prop (js_prop (data e) ''message'') ''usage'')
       (filter (\<lambda>e. event e = ''message_start'') (written r))"

section \<open>Facts about the string operations\<close>

lemma includes_str_sublist: "includes_str s n \<longleftrightarrow> sublist n s"
  by (induction s) (auto simp: sublist_Cons_right)

lemma includes_str_append_self: "includes_str (n @ s) n"
  by (simp add: includes_str_sublist)

lemma includes_str_drop: "\<not> includes_str s n \<Longrightarrow> \<not> includes_str (drop k s) n"
  unfolding includes_str_sublist
  by (metis sublist_order.order_trans suffix_drop suffix_imp_sublist)

lemma includes_str_nonempty: "includes_str s n \<Longrightarrow> n \<noteq> [] \<Longrightarrow> s \<noteq> []"
  by (cases s) auto

lemma split_first_None: "split_first s n = None \<longleftrightarrow> \<not> includes_str s n"
  by (induction s) auto

lemma split_first_Some:
  "split_first s n = Some (p, q) \<Longrightarrow> s = p @ n @ q \<and> replace_str s n r = p @ r @ q"
proof (induction s arbitrary: p)
  case Nil
  then show ?case by (auto split: if_splits)
next
  case (Cons x xs)
  show ?case
  proof (cases "prefix n (x # xs)")
    case True
    with Cons.prems have "p = []" "q = drop (length n) (x # xs)" by auto
    with True show ?thesis by (auto simp: prefix_def)
  next
    case False
    with Cons.prems obtain p' where p': "split_first xs n = Some (p', q)" "p = x # p'"
      by auto
    from Cons.IH[OF p'(1)] have "xs = p' @ n @ q" "replace_str xs n r = p' @ r @ q"
      by blast+
    moreover from False have "replace_str (x # xs) n r = x # replace_str xs n r"
      by simp
    ultimately show ?thesis using p'(2) by simp
  qed
qed

lemma replace_str_prefix:
  assumes "n \<noteq> []"
  shows "replace_str (n @ s) n r = r @ s"
proof -
  from assms obtain a l where al: "n @ s = a # l"
    by (cases "n @ s") auto
  have "prefix n (a # l)"
    by (metis al prefixI)
  then have "replace_str (a # l) n r = r @ drop (length n) (a # l)"
    by simp
  then show ?thesis
    by (metis al append_eq_conv_conj)
qed

lemma replace_str_absent: "\<not> includes_str s n \<Longrightarrow> replace_str s n r = s"
  by (induction s) auto

lemma think_open_nonempty: "think_open \<noteq> []"
  by (simp add: think_open_def js_def)

lemma think_close_nonempty: "think_close \<noteq> []"
  by (simp add: think_close_def js_def)

lemma written_append: "written (a @ b) = written a @ written b"
  by (induction a rule: written.induct) auto

lemma deltas_append: "deltas (a @ b) = deltas a @ deltas b"
  by (simp add: deltas_def written_append)

lemma event_names_append: "event_names (a @ b) = event_names a @ event_names b"
  by (simp add: event_names_def written_append)

lemma res_sendContentBlock:
  "res (sendContentBlock t h) =
     res h @ (if hasContent h then []
              else [Write \<lparr>event = ''content_block_start'',
                           data = content_block_start_data (contentIndex h)\<rparr>])
           @ [Write \<lparr>event = ''content_block_delta'',
                      data = content_block_delta_data (contentIndex h) t\<rparr>]"
  by (simp add: sendContentBlock_def writeClaudeStreamEvent_def createClaudeStreamEvent_def)

lemma fields_sendContentBlock:
  "hasContent (sendContentBlock t h)"
  "inThinking (sendContentBlock t h) = inThinking h"
  "thinkingBuffer (sendContentBlock t h) = thinkingBuffer h"
  "contentIndex (sendContentBlock t h) = contentIndex h"
  "totalOutputTokens (sendContentBlock t h) = totalOutputTokens h"
  "totalInputTokens (sendContentBlock t h) = totalInputTokens h"
  by (simp_all add: sendContentBlock_def)

lemma deltas_sendContentBlock:
  "deltas (res (sendContentBlock t h)) = deltas (res h) @ [t]"
  by (simp add: res_sendContentBlock deltas_append)
     (simp add: deltas_def content_block_start_data_def content_block_delta_data_def)

lemma event_names_sendContentBlock:
  "event_names (res (sendContentBlock t h)) =
     event_names (res h) @ (if hasContent h then [] else [''content_block_start''])
       @ [''content_block_delta'']"
  by (simp add: res_sendContentBlock event_names_append) (simp add: event_names_def)

lemma think_match_no_close_after:
  "\<not> includes_str (drop (length think_open) s) think_close \<Longrightarrow> think_match s = None"
proof (induction s)
  case Nil
  then show ?case by simp
next
  case (Cons x xs)
  have "drop (length think_open) xs = drop 1 (drop (length think_open) (x # xs))"
    by (cases "length think_open") (simp_all add: think_open_nonempty drop_Suc)
  with Cons.prems have "\<not> includes_str (drop (length think_open) xs) think_close"
    using includes_str_drop by metis
  with Cons.IH have "think_match xs = None" by simp
  moreover from Cons.prems
  have "split_first (drop (length think_open) (x # xs)) think_close = None"
    by (simp only: split_first_None not_False_eq_True)
  ultimately show ?case by simp
qed

lemma think_match_unterminated:
  "split_first s think_open = Some (p, q) \<Longrightarrow> \<not> includes_str q think_close \<Longrightarrow>
   think_match s = None"
proof (induction s arbitrary: p)
  case Nil
  then show ?case by simp
next
  case (Cons x xs)
  show ?case
  proof (cases "prefix think_open (x # xs)")
    case True
    with Cons.prems have "q = drop (length think_open) (x # xs)" by auto
    with Cons.prems(2) show ?thesis using think_match_no_close_after by blast
  next
    case False
    with Cons.prems obtain p' where "split_first xs think_open = Some (p', q)" by auto
    with Cons.IH Cons.prems(2) have "think_match xs = None" by blast
    with False show ?thesis by simp
  qed
qed

lemma split_first_remove:
  assumes "split_first s n = Some (p, q)"
  shows "replace_str s n [] = p @ q"
proof -
  from split_first_Some [OF assms, of "[]"] have "replace_str s n [] = p @ [] @ q"
    by (rule conjunct2)
  then show ?thesis by simp
qed

lemmas eval_defs = think_open_def think_close_def js_def trim_def is_ws_def replace_nl_end_def
  handleContent_def start_def new_handler_def sendContentBlock_def end_stream_def
  writeClaudeStreamEvent_def createClaudeStreamEvent_def Let_def
  deltas_def event_names_def
  content_block_delta_data_def content_block_start_data_def content_block_stop_data_def 
  message_delta_data_def message_stop_data_def message_start_data_def

section \<open>Non-streaming assembly\<close>

text \<open>
  C9. Assembling the complete string \<open><think>A</think>B\<close> gives the content array of
  two text blocks \<open>A\<close> and \<open>B\<close>; assembling \<open>B\<close> (no markers) gives the single text
  block \<open>B\<close>; assembling the empty string gives a single empty text block. This holds
  for every request id, model and usage argument.
\<close>

theorem assemble_examples:
  "js_prop (antigravityToClaudeResponse rid (js ''<think>A</think>B'') mdl usage) ''content''
     = JArr [text_block (js ''A''), text_block (js ''B'')]
   \<and> js_prop (antigravityToClaudeResponse rid (js ''B'') mdl usage) ''content''
     = JArr [text_block (js ''B'')]
   \<and> js_prop (antigravityToClaudeResponse rid (js []) mdl usage) ''content''
     = JArr [text_block []]"
  by (simp add: antigravityToClaudeResponse_def contentBlocks_def thinkingContent_def
      mainContent_def think_open_def think_close_def js_def trim_def is_ws_def)

text \<open>
  C6, as stated, fails: for the input \<open><think>abc\<close>, whose start marker is never closed,
  the regular expression finds no match, so no reasoning block is produced and the
  only block is the whole input, marker included, as visible text.
\<close>

theorem unterminated_counterexample:
  "js_prop (antigravityToClaudeResponse [] (js ''<think>abc'') [] JNull) ''content''
     = JArr [text_block (js ''<think>abc'')]
   \<and> JArr [text_block (js ''<think>abc'')] \<noteq> JArr [text_block (js ''abc'')]"
  by (simp add: antigravityToClaudeResponse_def contentBlocks_def thinkingContent_def
      mainContent_def think_open_def think_close_def js_def trim_def is_ws_def text_block_def)

text \<open>
  C6, amended. When the text after the first start marker contains no end marker, the
  content array is the single text block holding the whole input string unchanged
  (marker included, not trimmed); nothing is treated as reasoning.
\<close>

theorem unterminated_marker_is_visible:
  assumes "split_first content think_open = Some (p, q)"
    and "\<not> includes_str q think_close"
  shows "js_prop (antigravityToClaudeResponse rid content mdl usage) ''content''
           = JArr [text_block content]"
proof -
  from assms have m: "think_match content = None"
    by (rule think_match_unterminated)
  from assms(1) have "content = p @ think_open @ q"
    using split_first_Some by blast
  then have "content \<noteq> []"
    by (simp add: think_open_nonempty)
  with m show ?thesis
    by (simp add: antigravityToClaudeResponse_def contentBlocks_def thinkingContent_def
        mainContent_def)
qed

theorem unterminated_marker_is_visible_witness:
  "split_first (js ''<think>abc'') think_open = Some ([], js ''abc'')
   \<and> \<not> includes_str (js ''abc'') think_close
   \<and> js_prop (antigravityToClaudeResponse [] (js ''<think>abc'') [] JNull) ''content''
       = JArr [text_block (js ''<think>abc'')]"
proof -
  have h1: "split_first (js ''<think>abc'') think_open = Some ([], js ''abc'')"
    by (simp add: think_open_def js_def)
  have h2: "\<not> includes_str (js ''abc'') think_close"
    by (simp add: think_close_def js_def)
  from unterminated_marker_is_visible [OF h1 h2] h1 h2 show ?thesis
    by simp
qed

section \<open>Streaming: fragments that carry a marker\<close>

text \<open>
  C7, as stated, fails: in normal mode the fragment \<open></think><think>\<close> contains an end
  marker that no start marker precedes, yet nothing is written; the start marker found
  later in the fragment switches the handler to reasoning mode and the end marker goes
  into the reasoning buffer.
\<close>

theorem stray_end_marker_counterexample:
  "\<not> inThinking (start (new_handler [] [] []))
   \<and> includes_str (js ''</think><think>'') think_close
   \<and> res (handleContent (js ''</think><think>'') (start (new_handler [] [] [])))
       = res (start (new_handler [] [] []))
   \<and> inThinking (handleContent (js ''</think><think>'') (start (new_handler [] [] [])))
   \<and> thinkingBuffer (handleContent (js ''</think><think>'') (start (new_handler [] [] [])))
       = js ''</think>''"
  by (simp add: eval_defs)

text \<open>
  C7, amended. For every fragment handled in normal mode that contains an end marker and
  no start marker anywhere, \<open>handleContent\<close> returns normally and writes the whole
  fragment, marker included, as one \<open>content_block_delta\<close> (preceded by
  \<open>content_block_start\<close> when no block was open); the handler stays in normal mode.
\<close>

theorem stray_end_marker_is_visible:
  assumes "\<not> inThinking h"
    and "includes_str content think_close"
    and "\<not> includes_str content think_open"
  shows "res (handleContent content h) =
           res h @ (if hasContent h then []
                    else [Write \<lparr>event = ''content_block_start'',
                                 data = content_block_start_data (contentIndex h)\<rparr>])
                 @ [Write \<lparr>event = ''content_block_delta'',
                            data = content_block_delta_data (contentIndex h) content\<rparr>]
         \<and> deltas (res (handleContent content h)) = deltas (res h) @ [content]
         \<and> \<not> inThinking (handleContent content h)"
proof -
  from assms(2) have "content \<noteq> []"
    by (rule includes_str_nonempty) (rule think_close_nonempty)
  with assms(1,3) have eq: "handleContent content h = sendContentBlock content h"
    by (simp add: handleContent_def)
  have 1: "res (handleContent content h) =
           res h @ (if hasContent h then []
                    else [Write \<lparr>event = ''content_block_start'',
                                 data = content_block_start_data (contentIndex h)\<rparr>])
                 @ [Write \<lparr>event = ''content_block_delta'',
                            data = content_block_delta_data (contentIndex h) content\<rparr>]"
    unfolding eq by (rule res_sendContentBlock)
  have 2: "deltas (res (handleContent content h)) = deltas (res h) @ [content]"
    unfolding eq by (rule deltas_sendContentBlock)
  have 3: "\<not> inThinking (handleContent content h)"
    unfolding eq using assms(1) by (simp add: fields_sendContentBlock)
  from 1 2 3 show ?thesis by blast
qed

theorem stray_end_marker_is_visible_witness:
  "\<not> inThinking (start (new_handler [] [] []))
   \<and> includes_str (js ''a</think>b'') think_close
   \<and> \<not> includes_str (js ''a</think>b'') think_open
   \<and> deltas (res (handleContent (js ''a</think>b'') (start (new_handler [] [] []))))
       = [js ''a</think>b'']"
proof -
  have h1: "\<not> inThinking (start (new_handler [] [] []))"
    by (simp add: start_def new_handler_def)
  have h2: "includes_str (js ''a</think>b'') think_close"
    by (simp add: think_close_def js_def)
  have h3: "\<not> includes_str (js ''a</think>b'') think_open"
    by (simp add: think_open_def js_def)
  have "deltas (res (start (new_handler [] [] []))) = []"
    by (simp add: eval_defs)
  moreover from stray_end_marker_is_visible [OF h1 h2 h3]
  have "deltas (res (handleContent (js ''a</think>b'') (start (new_handler [] [] []))))
          = deltas (res (start (new_handler [] [] []))) @ [js ''a</think>b'']"
    by blast
  ultimately show ?thesis
    using h1 h2 h3 by simp
qed

section \<open>The event lifecycle\<close>

lemma event_names_Cons:
  "event_names [] = []"
  "event_names (Write e # r) = event e # event_names r"
  "event_names (End_call # r) = event_names r"
  by (simp_all add: event_names_def)

lemma written_map_Write: "written (map Write es) = es"
  by (induction es) auto

lemma lifecycle_inv_start: "lifecycle_inv (start (new_handler [] mid mdl))"
  by (simp add: lifecycle_inv_def start_def new_handler_def writeClaudeStreamEvent_def
      createClaudeStreamEvent_def event_names_def deltas_def message_start_data_def)

lemma lifecycle_inv_send:
  assumes "lifecycle_inv h"
  shows "lifecycle_inv (sendContentBlock t h)"
proof -
  from assms have n: "event_names (res h) =
       ''message_start'' #
         (if hasContent h
          then ''content_block_start'' # replicate (length (deltas (res h))) ''content_block_delta''
          else [])"
    and c: "hasContent h \<longleftrightarrow> deltas (res h) \<noteq> []"
    and w: "res h = map Write (written (res h))"
    by (simp_all add: lifecycle_inv_def)
  have 1: "event_names (res (sendContentBlock t h)) =
       ''message_start'' # ''content_block_start'' #
          replicate (length (deltas (res (sendContentBlock t h)))) ''content_block_delta''"
    using n c
    by (simp add: event_names_sendContentBlock deltas_sendContentBlock replicate_append_same)
  have 2: "deltas (res (sendContentBlock t h)) \<noteq> []"
    by (simp add: deltas_sendContentBlock)
  have "\<exists>es. res (sendContentBlock t h) = map Write es"
  proof -
    obtain es where "res h = map Write es" using w by blast
    then show ?thesis
      by (cases "hasContent h")
         (auto simp: res_sendContentBlock intro: exI [of _ "es @ [e]" for e]
                     exI [of _ "es @ [e, e']" for e e'])
  qed
  then have 3: "res (sendContentBlock t h) = map Write (written (res (sendContentBlock t h)))"
    by (auto simp: written_map_Write)
  from 1 2 3 show ?thesis
    by (simp add: lifecycle_inv_def fields_sendContentBlock)
qed

lemma lifecycle_inv_update:
  "lifecycle_inv (h\<lparr>thinkingBuffer := b\<rparr>) = lifecycle_inv h"
  "lifecycle_inv (h\<lparr>inThinking := m\<rparr>) = lifecycle_inv h"
  by (simp_all add: lifecycle_inv_def)

lemma lifecycle_inv_handleContent:
  "lifecycle_inv h \<Longrightarrow> lifecycle_inv (handleContent c h)"
  by (simp add: handleContent_def Let_def lifecycle_inv_update lifecycle_inv_send)

lemma lifecycle_inv_feed:
  "lifecycle_inv h \<Longrightarrow> lifecycle_inv (feed cs h)"
  by (induction cs arbitrary: h) (simp_all add: lifecycle_inv_handleContent)

lemma res_end_stream:
  "res (end_stream h) =
     res (flush h)
       @ (if hasContent (flush h)
          then [Write \<lparr>event = ''content_block_stop'',
                       data = content_block_stop_data (contentIndex h)\<rparr>]
          else [])
       @ [Write \<lparr>event = ''message_delta'', data = message_delta_data (totalOutputTokens h)\<rparr>,
          Write \<lparr>event = ''message_stop'', data = message_stop_data\<rparr>,
          End_call]"
  by (simp add: end_stream_def flush_def Let_def writeClaudeStreamEvent_def
      createClaudeStreamEvent_def fields_sendContentBlock)

lemma lifecycle_inv_flush: "lifecycle_inv h \<Longrightarrow> lifecycle_inv (flush h)"
  by (simp add: flush_def lifecycle_inv_send)

lemma fields_flush:
  "inThinking (flush h) = inThinking h"
  "thinkingBuffer (flush h) = thinkingBuffer h"
  by (simp_all add: flush_def fields_sendContentBlock)

lemma fields_end_stream:
  "inThinking (end_stream h) = inThinking h"
  "thinkingBuffer (end_stream h) = thinkingBuffer h"
  "hasContent (end_stream h) = hasContent (flush h)"
  by (simp_all add: end_stream_def flush_def Let_def fields_sendContentBlock)

lemma event_names_end_stream:
  "event_names (res (end_stream h)) =
     event_names (res h)
       @ (if inThinking h \<and> trim (thinkingBuffer h) \<noteq> []
          then (if hasContent h then [] else [''content_block_start''])
                 @ [''content_block_delta'', ''content_block_stop'']
          else if hasContent h then [''content_block_stop''] else [])
       @ [''message_delta'', ''message_stop'']"
  by (simp add: res_end_stream event_names_append event_names_Cons flush_def
      event_names_sendContentBlock fields_sendContentBlock)

text \<open>
  C3. For every list of fragments fed between \<open>start()\<close> and \<open>end()\<close> on a fresh handler,
  the events written are \<open>message_start\<close>; then, when \<open>n > 0\<close> deltas were written,
  one \<open>content_block_start\<close>, the \<open>n\<close> deltas and one \<open>content_block_stop\<close>, and nothing
  when \<open>n = 0\<close>; then \<open>message_delta\<close> and \<open>message_stop\<close>. So \<open>content_block_start\<close>
  never precedes \<open>message_start\<close>, occurs at most once and directly before the first
  delta, \<open>content_block_stop\<close> occurs exactly when \<open>content_block_start\<close> does, after all
  deltas and before \<open>message_delta\<close>, and \<open>message_stop\<close> is the last event; the only
  call after it closes the response.
\<close>

theorem event_order:
  "let r = res (end_stream (feed fs (start (new_handler [] mid mdl))));
       n = length (deltas r)
   in event_names r =
        ''message_start'' #
          (if n = 0 then []
           else ''content_block_start'' # replicate n ''content_block_delta''
                  @ [''content_block_stop''])
          @ [''message_delta'', ''message_stop'']
      \<and> r = map Write (written r) @ [End_call]"
proof -
  define h where "h = flush (feed fs (start (new_handler [] mid mdl)))"
  define g where "g = feed fs (start (new_handler [] mid mdl))"
  have inv: "lifecycle_inv h"
    unfolding h_def by (intro lifecycle_inv_flush lifecycle_inv_feed lifecycle_inv_start)
  then have n: "event_names (res h) =
       ''message_start'' #
         (if hasContent h
          then ''content_block_start'' # replicate (length (deltas (res h))) ''content_block_delta''
          else [])"
    and c: "hasContent h \<longleftrightarrow> deltas (res h) \<noteq> []"
    and w: "res h = map Write (written (res h))"
    by (simp_all add: lifecycle_inv_def)
  have r: "res (end_stream g) =
     res h
       @ (if hasContent h
          then [Write \<lparr>event = ''content_block_stop'',
                       data = content_block_stop_data (contentIndex g)\<rparr>]
          else [])
       @ [Write \<lparr>event = ''message_delta'', data = message_delta_data (totalOutputTokens g)\<rparr>,
          Write \<lparr>event = ''message_stop'', data = message_stop_data\<rparr>,
          End_call]"
    unfolding h_def g_def by (rule res_end_stream)
  have d: "deltas (res (end_stream g)) = deltas (res h)"
    unfolding r by (simp add: deltas_append)
      (simp add: deltas_def content_block_stop_data_def message_delta_data_def message_stop_data_def)
  have e: "event_names (res (end_stream g)) =
        ''message_start'' #
          (if length (deltas (res h)) = 0 then []
           else ''content_block_start'' # replicate (length (deltas (res h))) ''content_block_delta''
                  @ [''content_block_stop''])
          @ [''message_delta'', ''message_stop'']"
    unfolding r using n c by (simp add: event_names_append) (simp add: event_names_def)
  have "written (res (end_stream g)) = written (res h)
       @ (if hasContent h
          then [\<lparr>event = ''content_block_stop'',
                       data = content_block_stop_data (contentIndex g)\<rparr>]
          else [])
       @ [\<lparr>event = ''message_delta'', data = message_delta_data (totalOutputTokens g)\<rparr>,
          \<lparr>event = ''message_stop'', data = message_stop_data\<rparr>]"
    unfolding r by (simp add: written_append)
  then have f: "res (end_stream g) = map Write (written (res (end_stream g))) @ [End_call]"
    using w r by simp
  from d e f show ?thesis
    unfolding g_def [symmetric] by (simp add: Let_def)
qed

lemma fields_end_stream_more:
  "contentIndex (end_stream h) = contentIndex h"
  "totalOutputTokens (end_stream h) = totalOutputTokens h"
  by (simp_all add: end_stream_def Let_def fields_sendContentBlock)

lemma res_flush:
  "res (flush h) =
     res h
       @ (if inThinking h \<and> trim (thinkingBuffer h) \<noteq> [] then
            (if hasContent h then []
             else [Write \<lparr>event = ''content_block_start'',
                          data = content_block_start_data (contentIndex h)\<rparr>])
            @ [Write \<lparr>event = ''content_block_delta'',
                       data = content_block_delta_data (contentIndex h) (trim (thinkingBuffer h))\<rparr>]
          else [])"
  by (simp add: flush_def res_sendContentBlock)

lemma hasContent_flush_again: "hasContent (flush (end_stream h)) = hasContent (flush h)"
  by (simp add: flush_def fields_end_stream fields_sendContentBlock)

lemma res_flush_again:
  "res (flush (end_stream h)) =
     res (end_stream h)
       @ (if inThinking h \<and> trim (thinkingBuffer h) \<noteq> [] then
            [Write \<lparr>event = ''content_block_delta'',
                     data = content_block_delta_data (contentIndex h) (trim (thinkingBuffer h))\<rparr>]
          else [])"
proof (cases "inThinking h \<and> trim (thinkingBuffer h) \<noteq> []")
  case True
  then have "hasContent (end_stream h)"
    by (simp add: fields_end_stream flush_def fields_sendContentBlock)
  with True show ?thesis
    by (simp add: res_flush fields_end_stream fields_end_stream_more)
next
  case False
  then show ?thesis
    by (simp add: res_flush fields_end_stream)
qed

text \<open>
  C4, as stated, fails: the handler keeps no finished flag. On a fresh handler,
  \<open>start()\<close> and two calls of \<open>end()\<close> make these calls on the response, in order: the
  writes of \<open>message_start\<close>, \<open>message_delta\<close> and \<open>message_stop\<close>, then \<open>res.end()\<close>, and
  then once more the writes of \<open>message_delta\<close> and \<open>message_stop\<close> and \<open>res.end()\<close>. The
  second \<open>end()\<close> is no no-op in the handler: it issues the terminal writes a second
  time, after the response was ended.
\<close>

theorem end_twice_counterexample:
  "res (end_stream (end_stream (start (new_handler [] [] [])))) =
     [Write \<lparr>event = ''message_start'', data = message_start_data [] []\<rparr>,
      Write \<lparr>event = ''message_delta'', data = message_delta_data (JNum 0)\<rparr>,
      Write \<lparr>event = ''message_stop'', data = message_stop_data\<rparr>,
      End_call,
      Write \<lparr>event = ''message_delta'', data = message_delta_data (JNum 0)\<rparr>,
      Write \<lparr>event = ''message_stop'', data = message_stop_data\<rparr>,
      End_call]"
  by (simp add: end_stream_def start_def new_handler_def writeClaudeStreamEvent_def
      createClaudeStreamEvent_def Let_def)

text \<open>
  C4, amended. Every call of \<open>end()\<close>, in whatever state the handler is, makes these
  calls on the response, in order: if reasoning mode is on and the trimmed buffer is
  not empty, the write of \<open>content_block_start\<close> (when no block was open) and of the
  delta with the trimmed buffer; the write of \<open>content_block_stop\<close> if a block is open
  by then; the writes of \<open>message_delta\<close> and \<open>message_stop\<close>; and \<open>res.end()\<close>, which
  closes the response. No flag guards a second call: it makes the same calls once more
  after the first \<open>res.end()\<close> (the delta again if reasoning mode is on, without
  \<open>content_block_start\<close>). What the response object does with calls made after
  \<open>res.end()\<close> is not decided by the handler.
\<close>

theorem end_stream_calls:
  "res (end_stream h) =
     res h
       @ (if inThinking h \<and> trim (thinkingBuffer h) \<noteq> [] then
            (if hasContent h then []
             else [Write \<lparr>event = ''content_block_start'',
                          data = content_block_start_data (contentIndex h)\<rparr>])
            @ [Write \<lparr>event = ''content_block_delta'',
                       data = content_block_delta_data (contentIndex h) (trim (thinkingBuffer h))\<rparr>]
          else [])
       @ (if hasContent (flush h)
          then [Write \<lparr>event = ''content_block_stop'',
                       data = content_block_stop_data (contentIndex h)\<rparr>]
          else [])
       @ [Write \<lparr>event = ''message_delta'', data = message_delta_data (totalOutputTokens h)\<rparr>,
          Write \<lparr>event = ''message_stop'', data = message_stop_data\<rparr>,
          End_call]
   \<and> res (end_stream (end_stream h)) =
     res (end_stream h)
       @ (if inThinking h \<and> trim (thinkingBuffer h) \<noteq> [] then
            [Write \<lparr>event = ''content_block_delta'',
                     data = content_block_delta_data (contentIndex h) (trim (thinkingBuffer h))\<rparr>]
          else [])
       @ (if hasContent (flush h)
          then [Write \<lparr>event = ''content_block_stop'',
                       data = content_block_stop_data (contentIndex h)\<rparr>]
          else [])
       @ [Write \<lparr>event = ''message_delta'', data = message_delta_data (totalOutputTokens h)\<rparr>,
          Write \<lparr>event = ''message_stop'', data = message_stop_data\<rparr>,
          End_call]"
proof
  show "res (end_stream h) =
     res h
       @ (if inThinking h \<and> trim (thinkingBuffer h) \<noteq> [] then
            (if hasContent h then []
             else [Write \<lparr>event = ''content_block_start'',
                          data = content_block_start_data (contentIndex h)\<rparr>])
            @ [Write \<lparr>event = ''content_block_delta'',
                       data = content_block_delta_data (contentIndex h) (trim (thinkingBuffer h))\<rparr>]
          else [])
       @ (if hasContent (flush h)
          then [Write \<lparr>event = ''content_block_stop'',
                       data = content_block_stop_data (contentIndex h)\<rparr>]
          else [])
       @ [Write \<lparr>event = ''message_delta'', data = message_delta_data (totalOutputTokens h)\<rparr>,
          Write \<lparr>event = ''message_stop'', data = message_stop_data\<rparr>,
          End_call]"
    unfolding res_end_stream [of h] res_flush [of h] by simp
next
  show "res (end_stream (end_stream h)) =
     res (end_stream h)
       @ (if inThinking h \<and> trim (thinkingBuffer h) \<noteq> [] then
            [Write \<lparr>event = ''content_block_delta'',
                     data = content_block_delta_data (contentIndex h) (trim (thinkingBuffer h))\<rparr>]
          else [])
       @ (if hasContent (flush h)
          then [Write \<lparr>event = ''content_block_stop'',
                       data = content_block_stop_data (contentIndex h)\<rparr>]
          else [])
       @ [Write \<lparr>event = ''message_delta'', data = message_delta_data (totalOutputTokens h)\<rparr>,
          Write \<lparr>event = ''message_stop'', data = message_stop_data\<rparr>,
          End_call]"
    unfolding res_end_stream [of "end_stream h"] res_flush_again [of h] hasContent_flush_again
      fields_end_stream_more
    by simp
qed

section \<open>Streaming: the marker rules of \<open>handleContent\<close>\<close>

text \<open>
  C2, as stated, fails. In normal mode the fragment \<open>Hi<think>x\<close> emits nothing: the
  text \<open>Hi\<close> before the marker is not a visible piece, it is kept in the reasoning
  buffer, which becomes \<open>Hix\<close>. In reasoning mode with \<open>X\<close> buffered, the fragment
  \<open></think>Y\<close> emits the single delta \<open>XY\<close>: the text after the end marker is not
  classified again as visible text, it is part of the reasoning delta.
\<close>

theorem marker_rules_counterexample:
  "deltas (res (handleContent (js ''Hi<think>x'') (start (new_handler [] [] [])))) = []
   \<and> thinkingBuffer (handleContent (js ''Hi<think>x'') (start (new_handler [] [] []))) = js ''Hix''
   \<and> deltas (res (handleContent (js ''</think>Y'')
        ((start (new_handler [] [] []))\<lparr>inThinking := True, thinkingBuffer := js ''X''\<rparr>)))
       = [js ''XY'']"
  by (simp add: eval_defs)

text \<open>
  C2, amended. A fragment that contains the start marker, split at its first start
  marker into \<open>p\<close> and \<open>q\<close>, emits nothing in any mode; the handler enters reasoning mode
  and the reasoning buffer is replaced by \<open>p\<close> followed by \<open>q\<close>, less one line feed at the
  end. A fragment without start marker that is handled in reasoning mode and contains
  the end marker, split at its first end marker into \<open>p'\<close> and \<open>q'\<close>, appends \<open>p'\<close>
  followed by \<open>q'\<close>, less one line feed at the end, to the buffer; the trimmed buffer is
  emitted as one delta unless it is empty, the buffer is cleared and the mode is normal
  again. The text after the end marker is not classified a second time.
\<close>

theorem marker_fragment_rules:
  "(split_first c think_open = Some (p, q) \<longrightarrow>
      res (handleContent c h) = res h
      \<and> inThinking (handleContent c h)
      \<and> thinkingBuffer (handleContent c h) = replace_nl_end (p @ q))
   \<and> (\<not> includes_str c' think_open \<and> inThinking h' \<and> split_first c' think_close = Some (p', q') \<longrightarrow>
      deltas (res (handleContent c' h')) =
        deltas (res h') @
          (if trim (thinkingBuffer h' @ replace_nl_end (p' @ q')) = [] then []
           else [trim (thinkingBuffer h' @ replace_nl_end (p' @ q'))])
      \<and> \<not> inThinking (handleContent c' h')
      \<and> thinkingBuffer (handleContent c' h') = [])"
proof (intro conjI impI)
  assume a: "split_first c think_open = Some (p, q)"
  then have i: "includes_str c think_open"
    using split_first_None [of c think_open] by simp
  from a have r: "replace_str c think_open [] = p @ q"
    by (rule split_first_remove)
  from i r show "res (handleContent c h) = res h"
    and "inThinking (handleContent c h)"
    and "thinkingBuffer (handleContent c h) = replace_nl_end (p @ q)"
    by (simp_all add: handleContent_def)
next
  assume b: "\<not> includes_str c' think_open \<and> inThinking h' \<and> split_first c' think_close = Some (p', q')"
  then have i: "includes_str c' think_close"
    using split_first_None [of c' think_close] by simp
  from b have r: "replace_str c' think_close [] = p' @ q'"
    by (simp add: split_first_remove)
  from b i r show "deltas (res (handleContent c' h')) =
        deltas (res h') @
          (if trim (thinkingBuffer h' @ replace_nl_end (p' @ q')) = [] then []
           else [trim (thinkingBuffer h' @ replace_nl_end (p' @ q'))])"
    and "\<not> inThinking (handleContent c' h')"
    and "thinkingBuffer (handleContent c' h') = []"
    by (simp_all add: handleContent_def Let_def deltas_sendContentBlock fields_sendContentBlock)
qed

theorem marker_fragment_rules_witness:
  "split_first (js ''Hi<think>x'') think_open = Some (js ''Hi'', js ''x'')
   \<and> res (handleContent (js ''Hi<think>x'') (start (new_handler [] [] [])))
       = res (start (new_handler [] [] []))
   \<and> thinkingBuffer (handleContent (js ''Hi<think>x'') (start (new_handler [] [] []))) = js ''Hix''
   \<and> \<not> includes_str (js ''</think>Y'') think_open
   \<and> inThinking ((start (new_handler [] [] []))\<lparr>inThinking := True, thinkingBuffer := js ''X''\<rparr>)
   \<and> split_first (js ''</think>Y'') think_close = Some ([], js ''Y'')
   \<and> deltas (res (handleContent (js ''</think>Y'')
        ((start (new_handler [] [] []))\<lparr>inThinking := True, thinkingBuffer := js ''X''\<rparr>)))
       = [js ''XY'']"
proof -
  let ?h = "start (new_handler [] [] [])"
  let ?h' = "?h\<lparr>inThinking := True, thinkingBuffer := js ''X''\<rparr>"
  have a: "split_first (js ''Hi<think>x'') think_open = Some (js ''Hi'', js ''x'')"
    by (simp add: think_open_def js_def)
  have b1: "\<not> includes_str (js ''</think>Y'') think_open"
    by (simp add: think_open_def js_def)
  have b2: "inThinking ?h'"
    by simp
  have b3: "split_first (js ''</think>Y'') think_close = Some ([], js ''Y'')"
    by (simp add: think_close_def js_def)
  note T = marker_fragment_rules [of "js ''Hi<think>x''" "js ''Hi''" "js ''x''" ?h
      "js ''</think>Y''" ?h' "[]" "js ''Y''"]
  from T a have r1: "res (handleContent (js ''Hi<think>x'') ?h) = res ?h"
    and r2: "thinkingBuffer (handleContent (js ''Hi<think>x'') ?h) = replace_nl_end (js ''Hi'' @ js ''x'')"
    by blast+
  from T b1 b2 b3 have r3: "deltas (res (handleContent (js ''</think>Y'') ?h')) =
        deltas (res ?h') @
          (if trim (thinkingBuffer ?h' @ replace_nl_end ([] @ js ''Y'')) = [] then []
           else [trim (thinkingBuffer ?h' @ replace_nl_end ([] @ js ''Y''))])"
    by blast
  have e2: "replace_nl_end (js ''Hi'' @ js ''x'') = js ''Hix''"
    by (simp add: replace_nl_end_def js_def)
  have e3: "deltas (res ?h') @
          (if trim (thinkingBuffer ?h' @ replace_nl_end ([] @ js ''Y'')) = [] then []
           else [trim (thinkingBuffer ?h' @ replace_nl_end ([] @ js ''Y''))]) = [js ''XY'']"
    by (simp add: eval_defs)
  from a b1 b2 b3 r1 r2 r3 e2 e3 show ?thesis
    by (simp only: simp_thms)
qed

section \<open>Token usage\<close>

lemma usage_of_append: "usage_of n (a @ b) = usage_of n a @ usage_of n b"
  by (simp add: usage_of_def written_append)

lemma start_usage_append: "start_usage (a @ b) = start_usage a @ start_usage b"
  by (simp add: start_usage_def written_append)

lemma usage_of_flush: "usage_of ''message_delta'' (res (flush h)) = usage_of ''message_delta'' (res h)"
  by (simp add: flush_def res_sendContentBlock usage_of_append) (simp add: usage_of_def)

lemma handleUsage_obj:
  "handleUsage (JObj kvs) h =
     Inr (h\<lparr>totalInputTokens := js_or (js_prop (JObj kvs) ''prompt_tokens'') (JNum 0),
            totalOutputTokens := js_or (js_prop (JObj kvs) ''completion_tokens'') (JNum 0)\<rparr>)"
  by (simp add: handleUsage_def)

lemma handleUsage_res: "handleUsage u h = Inr h1 \<Longrightarrow> res h1 = res h"
  by (auto simp: handleUsage_def split: sum.splits)

lemma handleUsage_last_wins: "handleUsage u1 h = Inr h1 \<Longrightarrow> handleUsage u2 h1 = handleUsage u2 h"
  by (auto simp: handleUsage_def split: sum.splits)

text \<open>
  C5, as stated, fails: \<open>handleUsage\<close> reads the properties \<open>prompt_tokens\<close> and
  \<open>completion_tokens\<close>. On the record \<open>{promptTokens: 12, completionTokens: 34}\<close> both
  reads give \<open>undefined\<close>, and the \<open>message_delta\<close> written by \<open>end()\<close> carries
  \<open>output_tokens\<close> 0.
\<close>

theorem usage_counterexample:
  "usage_of ''message_delta''
     (res (fst (run [Start,
                     HandleUsage (JObj [(''promptTokens'', JNum 12), (''completionTokens'', JNum 34)]),
                     End_op]
                (new_handler [] [] []))))
   = [JObj [(''output_tokens'', JNum 0)]]"
  by (simp add: eval_defs handleUsage_def js_or_def usage_of_def)

text \<open>
  C5, amended. Calling \<open>handleUsage\<close> with \<open>{prompt_tokens: p, completion_tokens: c}\<close>
  (for instance 12 and 34) and then \<open>end()\<close> writes one more \<open>message_delta\<close>, whose usage
  is \<open>{output_tokens: c}\<close>. The \<open>message_start\<close> event written by \<open>start()\<close> carries the
  usage \<open>{input_tokens: 0, output_tokens: 0}\<close> whatever the handler has recorded, and
  \<open>handleUsage\<close> writes nothing. A second call of \<open>handleUsage\<close> gives the result it
  would give without the first: the last call wins.
\<close>

theorem usage_accounting:
  "usage_of ''message_delta''
     (res (fst (run [HandleUsage (JObj [(''prompt_tokens'', JNum p), (''completion_tokens'', JNum c)]),
                     End_op] h)))
     = usage_of ''message_delta'' (res h) @ [JObj [(''output_tokens'', JNum c)]]
   \<and> start_usage (res (start h))
     = start_usage (res h) @ [JObj [(''input_tokens'', JNum 0), (''output_tokens'', JNum 0)]]
   \<and> (handleUsage u1 h = Inr h1 \<longrightarrow> res h1 = res h \<and> handleUsage u2 h1 = handleUsage u2 h)"
proof -
  have 1: "usage_of ''message_delta''
     (res (fst (run [HandleUsage (JObj [(''prompt_tokens'', JNum p), (''completion_tokens'', JNum c)]),
                     End_op] h)))
     = usage_of ''message_delta'' (res h) @ [JObj [(''output_tokens'', JNum c)]]"
    by (simp add: handleUsage_obj res_end_stream usage_of_append usage_of_flush js_or_def)
       (simp add: usage_of_def flush_def fields_sendContentBlock content_block_stop_data_def message_delta_data_def
        message_stop_data_def)
  have 2: "start_usage (res (start h))
     = start_usage (res h) @ [JObj [(''input_tokens'', JNum 0), (''output_tokens'', JNum 0)]]"
    by (simp add: start_def writeClaudeStreamEvent_def createClaudeStreamEvent_def start_usage_append)
       (simp add: start_usage_def message_start_data_def)
  from 1 2 show ?thesis
    using handleUsage_res handleUsage_last_wins by blast
qed

theorem usage_accounting_witness:
  "usage_of ''message_delta''
     (res (fst (run [HandleUsage (JObj [(''prompt_tokens'', JNum 12), (''completion_tokens'', JNum 34)]),
                     End_op] (start (new_handler [] [] [])))))
     = [JObj [(''output_tokens'', JNum 34)]]
   \<and> handleUsage (JObj [(''completion_tokens'', JNum 5)]) (start (new_handler [] [] []))
       = Inr ((start (new_handler [] [] []))\<lparr>totalInputTokens := JNum 0, totalOutputTokens := JNum 5\<rparr>)
   \<and> handleUsage (JObj [(''prompt_tokens'', JNum 12), (''completion_tokens'', JNum 34)])
        ((start (new_handler [] [] []))\<lparr>totalInputTokens := JNum 0, totalOutputTokens := JNum 5\<rparr>)
       = handleUsage (JObj [(''prompt_tokens'', JNum 12), (''completion_tokens'', JNum 34)])
           (start (new_handler [] [] []))"
proof -
  let ?h = "start (new_handler [] [] [])"
  let ?u1 = "JObj [(''completion_tokens'', JNum 5)]"
  let ?u2 = "JObj [(''prompt_tokens'', JNum 12), (''completion_tokens'', JNum 34)]"
  let ?h1 = "?h\<lparr>totalInputTokens := JNum 0, totalOutputTokens := JNum 5\<rparr>"
  have a: "handleUsage ?u1 ?h = Inr ?h1"
    by (simp add: handleUsage_def js_or_def)
  note T = usage_accounting [of 12 34 ?h ?u1 ?h1 ?u2]
  have e: "usage_of ''message_delta'' (res ?h) = []"
    by (simp add: eval_defs usage_of_def)
  from T have "usage_of ''message_delta'' (res (fst (run [HandleUsage ?u2, End_op] ?h)))
     = usage_of ''message_delta'' (res ?h) @ [JObj [(''output_tokens'', JNum 34)]]"
    by blast
  with e have r1: "usage_of ''message_delta'' (res (fst (run [HandleUsage ?u2, End_op] ?h)))
     = [JObj [(''output_tokens'', JNum 34)]]"
    by simp
  from T a have r2: "handleUsage ?u2 ?h1 = handleUsage ?u2 ?h"
    by blast
  from a r1 r2 show ?thesis
    by (simp only: simp_thms)
qed














section \<open>White space\<close>







lemma deltas_end_stream: "deltas (res (end_stream h)) = deltas (res (flush h))"
  by (simp add: res_end_stream deltas_append)
     (simp add: deltas_def content_block_stop_data_def message_delta_data_def message_stop_data_def)





section \<open>Splitting the stream into fragments\<close>

lemma feed_append: "feed (a @ b) h = feed b (feed a h)"
  by (induction a arbitrary: h) simp_all

lemma feed_reasoning:
  "inThinking h \<Longrightarrow>
   \<forall>x\<in>set xs. \<not> includes_str x think_open \<and> \<not> includes_str x think_close \<Longrightarrow>
   feed xs h = h\<lparr>thinkingBuffer := thinkingBuffer h @ concat xs\<rparr>"
proof (induction xs arbitrary: h)
  case Nil
  then show ?case by simp
next
  case (Cons x xs)
  from Cons.prems have s: "handleContent x h = h\<lparr>thinkingBuffer := thinkingBuffer h @ x\<rparr>"
    by (simp add: handleContent_def)
  have "feed xs (h\<lparr>thinkingBuffer := thinkingBuffer h @ x\<rparr>) =
        (h\<lparr>thinkingBuffer := thinkingBuffer h @ x\<rparr>)
          \<lparr>thinkingBuffer := thinkingBuffer (h\<lparr>thinkingBuffer := thinkingBuffer h @ x\<rparr>) @ concat xs\<rparr>"
    using Cons.prems by (intro Cons.IH) simp_all
  with s show ?case by simp
qed

lemma feed_visible:
  "\<not> inThinking h \<Longrightarrow> \<forall>y\<in>set ys. \<not> includes_str y think_open \<Longrightarrow>
   deltas (res (feed ys h)) = deltas (res h) @ filter (\<lambda>y. y \<noteq> []) ys
   \<and> \<not> inThinking (feed ys h)"
proof (induction ys arbitrary: h)
  case Nil
  then show ?case by simp
next
  case (Cons y ys)
  from Cons.prems have 1: "\<not> inThinking (handleContent y h)"
    and 2: "deltas (res (handleContent y h)) = deltas (res h) @ (if y \<noteq> [] then [y] else [])"
    by (simp_all add: handleContent_def fields_sendContentBlock deltas_sendContentBlock)
  from Cons.prems have "\<forall>y\<in>set ys. \<not> includes_str y think_open" by simp
  from Cons.IH [OF 1 this] 2 show ?case by simp
qed

text \<open>
  C1, as stated, fails. The string \<open><think>a</think>b\<close> fed as one fragment gives the
  single delta \<open>a</think>b\<close>; split after \<open><think>a\<close> and after \<open></think>\<close> it gives
  the deltas \<open>a\<close> and \<open>b\<close>; split inside the start marker it gives the two fragments
  back as visible deltas, markers included.
\<close>

theorem split_counterexample:
  "deltas (res (end_stream (feed [js ''<think>a</think>b''] (start (new_handler [] [] [])))))
     = [js ''a</think>b'']
   \<and> deltas (res (end_stream (feed [js ''<think>a'', js ''</think>'', js ''b'']
        (start (new_handler [] [] []))))) = [js ''a'', js ''b'']
   \<and> deltas (res (end_stream (feed [js ''<thi'', js ''nk>a</think>b'']
        (start (new_handler [] [] []))))) = [js ''<thi'', js ''nk>a</think>b'']"
  by (simp add: eval_defs)

text \<open>
  C1, amended. Let the stream be split so that the first fragment begins with the start
  marker, the following fragments up to the end marker contain no marker, one fragment
  \<open>c\<close> contains the end marker and no start marker, and the fragments after it contain
  no start marker. Then the deltas emitted up to the end of the stream are: the
  reasoning text (the first fragment without its marker and without a line feed at its
  end, the fragments in between, and \<open>c\<close> without its first end marker and without a line
  feed at its end), trimmed, as one delta unless it is empty; then every non-empty
  fragment after \<open>c\<close> as one visible delta each, in order.
\<close>

theorem aligned_split_deltas:
  assumes "\<forall>x\<in>set xs. \<not> includes_str x think_open \<and> \<not> includes_str x think_close"
    and "includes_str c think_close"
    and "\<not> includes_str c think_open"
    and "\<forall>y\<in>set ys. \<not> includes_str y think_open"
  shows "deltas (res (end_stream (feed ((think_open @ x0) # xs @ c # ys)
                                   (start (new_handler [] mid mdl))))) =
           (let B = replace_nl_end x0 @ concat xs @ replace_nl_end (replace_str c think_close [])
            in (if trim B = [] then [] else [trim B]) @ filter (\<lambda>y. y \<noteq> []) ys)"
proof -
  define h0 where "h0 = start (new_handler [] mid mdl)"
  define h1 where "h1 = handleContent (think_open @ x0) h0"
  define h2 where "h2 = feed xs h1"
  define h3 where "h3 = handleContent c h2"
  define B where "B = replace_nl_end x0 @ concat xs @ replace_nl_end (replace_str c think_close [])"
  have d0: "deltas (res h0) = []"
    by (simp add: h0_def start_def new_handler_def writeClaudeStreamEvent_def
        createClaudeStreamEvent_def deltas_def message_start_data_def)
  have "replace_str (think_open @ x0) think_open [] = x0"
    using replace_str_prefix [OF think_open_nonempty, of x0 "[]"] by simp
  then have e1: "h1 = h0\<lparr>inThinking := True, thinkingBuffer := replace_nl_end x0\<rparr>"
    by (simp add: h1_def handleContent_def includes_str_append_self)
  then have "inThinking h1" by simp
  from feed_reasoning [OF this assms(1)]
  have e2: "h2 = h0\<lparr>inThinking := True, thinkingBuffer := replace_nl_end x0 @ concat xs\<rparr>"
    by (simp add: h2_def e1)
  have d3: "deltas (res h3) = (if trim B = [] then [] else [trim B])"
    and m3: "\<not> inThinking h3"
    using assms(2,3) d0
    by (simp_all add: h3_def e2 handleContent_def Let_def deltas_sendContentBlock
        fields_sendContentBlock B_def)
  from feed_visible [OF m3 assms(4)]
  have d4: "deltas (res (feed ys h3)) = (if trim B = [] then [] else [trim B]) @ filter (\<lambda>y. y \<noteq> []) ys"
    and m4: "\<not> inThinking (feed ys h3)"
    by (simp_all add: d3)
  have "feed ((think_open @ x0) # xs @ c # ys) h0 = feed ys h3"
    by (simp add: feed_append h1_def h2_def h3_def)
  then have "deltas (res (end_stream (feed ((think_open @ x0) # xs @ c # ys) h0)))
     = (if trim B = [] then [] else [trim B]) @ filter (\<lambda>y. y \<noteq> []) ys"
    using d4 m4 by (simp add: deltas_end_stream flush_def)
  then show ?thesis
    by (simp add: h0_def B_def Let_def)
qed

theorem aligned_split_deltas_witness:
  "\<not> includes_str (js ''p '') think_open
   \<and> \<not> includes_str (js ''p '') think_close
   \<and> includes_str (js ''1</think>'') think_close
   \<and> \<not> includes_str (js ''1</think>'') think_open
   \<and> \<not> includes_str (js ''Hello'') think_open
   \<and> \<not> includes_str (js '' world'') think_open
   \<and> deltas (res (end_stream (feed [js ''<think>Ste'', js ''p '', js ''1</think>'', js ''Hello'', js '' world'']
                                   (start (new_handler [] [] [])))))
       = [js ''Step 1'', js ''Hello'', js '' world'']"
proof -
  have a1: "\<forall>x\<in>set [js ''p ''] . \<not> includes_str x think_open \<and> \<not> includes_str x think_close"
    by (simp add: think_open_def think_close_def js_def)
  have a2: "includes_str (js ''1</think>'') think_close"
    by (simp add: think_close_def js_def)
  have a3: "\<not> includes_str (js ''1</think>'') think_open"
    by (simp add: think_open_def js_def)
  have a4: "\<forall>y\<in>set [js ''Hello'', js '' world'']. \<not> includes_str y think_open"
    by (simp add: think_open_def js_def)
  have e: "(think_open @ js ''Ste'') # [js ''p ''] @ js ''1</think>'' # [js ''Hello'', js '' world'']
        = [js ''<think>Ste'', js ''p '', js ''1</think>'', js ''Hello'', js '' world'']"
    by (simp add: think_open_def js_def)
  have v: "(let B = replace_nl_end (js ''Ste'') @ concat [js ''p '']
                     @ replace_nl_end (replace_str (js ''1</think>'') think_close [])
           in (if trim B = [] then [] else [trim B]) @ filter (\<lambda>y. y \<noteq> []) [js ''Hello'', js '' world''])
        = [js ''Step 1'', js ''Hello'', js '' world'']"
    by (simp add: eval_defs)
  from aligned_split_deltas [OF a1 a2 a3 a4, of "js ''Ste''" "[]" "[]"]
  have "deltas (res (end_stream (feed [js ''<think>Ste'', js ''p '', js ''1</think>'', js ''Hello'', js '' world'']
                                   (start (new_handler [] [] [])))))
       = [js ''Step 1'', js ''Hello'', js '' world'']"
    unfolding e v .
  with a1 a2 a3 a4 show ?thesis
    by simp
qed

end
